theory Spec2Isabelle
  imports Complex_Main
begin

section \<open>Data model of \<open>aipl/table.py\<close>\<close>

text \<open>
  A column key is a single field name or a path of field names; the source tests
  \<open>isinstance(self.key, (list, tuple))\<close>, so both sequence kinds are kept apart (a list
  is unhashable, a tuple is not, which matters for \<open>row[self.key]\<close>).
\<close>

datatype key = KStr string | KList "string list" | KTuple "string list"

text \<open>The exceptions the module can raise; \<open>KeyError\<close> carries the key it was raised with.\<close>

datatype error = KeyError key | IndexError | AttributeError | TypeError | AssertionError

text \<open>
  \<open>Column\<close> and its subclass \<open>SubColumn\<close>. The field \<open>name\<close> is the value computed by the
  initialiser (\<open>name or key\<close>); a column is an already initialised object.
\<close>

datatype column =
    Column (key: key) (name: string)
  | SubColumn (key: key) (name: string) (origcol: column)

text \<open>
  The values a row can hold. \<open>VInt\<close>, \<open>VFloat\<close> and \<open>VStr\<close> are the primitives that
  \<open>LazyRow._asdict\<close> keeps as they are; \<open>VDict\<close> is a nested mapping with string keys, in
  insertion order; \<open>VLazy\<close> is a \<open>LazyRow\<close> (the value of the \<open>__parent\<close> entry);
  \<open>UNWORKING\<close> is the module's sentinel object; \<open>VObj\<close> is any other object, one without
  the mapping protocol. A \<open>Row\<close> is a \<open>dict\<close>. A \<open>Table\<close> has the four attributes its
  initialiser sets. Values are finite trees: no row contains itself, directly or through
  a table or a parent link, so a chain of parent links is finite.
\<close>

datatype val =
    VNone
  | VInt int
  | VFloat real
  | VStr string
  | VTable table
  | VDict "(string \<times> val) list"
  | VLazy lazyrow
  | VObj string
  | UNWORKING
and table =
    Table (rows: "(string \<times> val) list list") (columns: "column list") (scalar: val)
      (parent: "table option")
and lazyrow =
    LazyRow (table_of: table) (row_of: "(string \<times> val) list")

type_synonym row = "(string \<times> val) list"

definition CURRENT_COLNAME :: string where
  "CURRENT_COLNAME = ''_''"

text \<open>\<open>s.startswith(p)\<close>.\<close>

definition startswith :: "string \<Rightarrow> string \<Rightarrow> bool" where
  "startswith s p = (take (length p) s = p)"

text \<open>\<open>Column.hidden\<close>.\<close>

definition hidden :: "column \<Rightarrow> bool" where
  "hidden c = startswith (name c) ''_''"

text \<open>\<open>Column(key)\<close> and \<open>Column(key, name)\<close> for a string key: \<open>self.name = name or key\<close>.\<close>

definition Column_init :: "string \<Rightarrow> string \<Rightarrow> column" where
  "Column_init k nm = Column (KStr k) (if nm = [] then k else nm)"

section \<open>Column access and scope-chain lookup\<close>

text \<open>\<open>Table.colnames\<close> and \<open>Table.get_column\<close>; the latter indexes \<open>self.columns[-1]\<close> for the
  alias, which raises on an empty column list, and returns \<open>None\<close> when no name matches.\<close>

definition colnames :: "table \<Rightarrow> string list" where
  "colnames t = map name (columns t)"

definition get_column :: "table \<Rightarrow> key \<Rightarrow> error + column option" where
  "get_column t nm =
     (if nm = KStr CURRENT_COLNAME then
        (if columns t = [] then Inl IndexError else Inr (Some (last (columns t))))
      else Inr (find (\<lambda>c. KStr (name c) = nm) (columns t)))"

text \<open>\<open>LazyRow.parent_row\<close>: \<open>self._row.get('__parent', None)\<close>.\<close>

definition parent_row :: "lazyrow \<Rightarrow> val" where
  "parent_row lr = (case map_of (row_of lr) ''__parent'' of None \<Rightarrow> VNone | Some v \<Rightarrow> v)"

text \<open>
  \<open>obj_get obj k\<close> is \<open>obj.get(k)\<close>: a dictionary lookup with default \<open>None\<close>; on a
  \<open>LazyRow\<close> it is \<open>Mapping.get\<close>, which calls \<open>__getitem__\<close> and turns a \<open>KeyError\<close> into
  \<open>None\<close>; every other value has no such attribute.
  \<open>obj_item obj k\<close> is \<open>obj[k]\<close>.
  \<open>walk\<close> is the loop of \<open>Column.get_value\<close> over a path-valued key.
  \<open>get_value\<close> is \<open>Column.get_value\<close> and its override \<open>SubColumn.get_value\<close>.
  \<open>getitem\<close> is \<open>LazyRow.__getitem__\<close>, the loop over the chain of parent rows.
\<close>

function obj_get :: "val \<Rightarrow> string \<Rightarrow> error + val"
  and obj_item :: "val \<Rightarrow> key \<Rightarrow> error + val"
  and walk :: "string list \<Rightarrow> val \<Rightarrow> error + val"
  and get_value :: "column \<Rightarrow> val \<Rightarrow> error + val"
  and getitem :: "lazyrow \<Rightarrow> key \<Rightarrow> error + val"
where
  "obj_get obj k =
     (case obj of
        VDict d \<Rightarrow> (case map_of d k of None \<Rightarrow> Inr VNone | Some v \<Rightarrow> Inr v)
      | VLazy lr \<Rightarrow> (case getitem lr (KStr k) of Inl (KeyError _) \<Rightarrow> Inr VNone | r \<Rightarrow> r)
      | _ \<Rightarrow> Inl AttributeError)"
| "obj_item obj k =
     (case obj of
        VDict d \<Rightarrow>
          (case k of
             KStr s \<Rightarrow> (case map_of d s of None \<Rightarrow> Inl (KeyError k) | Some v \<Rightarrow> Inr v)
           | KTuple _ \<Rightarrow> Inl (KeyError k)
           | KList _ \<Rightarrow> Inl TypeError)
      | VLazy lr \<Rightarrow> getitem lr k
      | _ \<Rightarrow> Inl TypeError)"
| "walk [] obj = Inr obj"
| "walk (k # ks) obj =
     (case obj_get obj k of
        Inl e \<Rightarrow> Inl e
      | Inr v \<Rightarrow> if v = VNone then Inr VNone else walk ks v)"
| "get_value (Column ck nm) obj =
     (case ck of
        KStr k \<Rightarrow> obj_get obj k
      | KList ks \<Rightarrow> walk ks obj
      | KTuple ks \<Rightarrow> walk ks obj)"
| "get_value (SubColumn ck nm oc) obj =
     (case obj_item obj ck of
        Inl e \<Rightarrow> Inl e
      | Inr sub \<Rightarrow> get_value oc sub)"
| "getitem (LazyRow t r) k =
     (case get_column t k of
        Inl e \<Rightarrow> Inl e
      | Inr (Some c) \<Rightarrow> get_value c (VDict r)
      | Inr None \<Rightarrow>
          (case parent_row (LazyRow t r) of
             VNone \<Rightarrow> Inl (KeyError k)
           | VLazy p \<Rightarrow> getitem p k
           | _ \<Rightarrow> Inl AttributeError))"
  by pat_completeness auto

text \<open>
  The recursion is nested (the loop continues on the value a lookup returned), so
  termination rests on a fact about results: a value that is returned is a part of the
  object it was read from, hence no larger.
\<close>

lemma map_of_size:
  "map_of d k = Some v \<Longrightarrow> size v \<le> size_list (size_prod (\<lambda>x. 0) size) d"
  by (induction d) (auto split: if_splits)

lemma parent_row_size: "parent_row lr = VLazy p \<Longrightarrow> size p < size lr"
  by (cases lr) (auto simp: parent_row_def split: option.splits dest!: map_of_size)

lemma result_size_dom:
  "obj_get_obj_item_walk_get_value_getitem_dom (Inl (Inl (obj, s))) \<Longrightarrow>
     obj_get obj s = Inr v1 \<Longrightarrow> size v1 \<le> size obj"
  "obj_get_obj_item_walk_get_value_getitem_dom (Inl (Inr (obj2, k2))) \<Longrightarrow>
     obj_item obj2 k2 = Inr v2 \<Longrightarrow> size v2 \<le> size obj2"
  "obj_get_obj_item_walk_get_value_getitem_dom (Inr (Inl (ks, obj3))) \<Longrightarrow>
     walk ks obj3 = Inr v3 \<Longrightarrow> size v3 \<le> size obj3"
  "obj_get_obj_item_walk_get_value_getitem_dom (Inr (Inr (Inl (c, obj4)))) \<Longrightarrow>
     get_value c obj4 = Inr v4 \<Longrightarrow> size v4 \<le> size obj4"
  "obj_get_obj_item_walk_get_value_getitem_dom (Inr (Inr (Inr (lr, k5)))) \<Longrightarrow>
     getitem lr k5 = Inr v5 \<Longrightarrow> size v5 \<le> size lr"
proof (induction obj s and obj2 k2 and ks obj3 and c obj4 and lr k5
    arbitrary: v1 and v2 and v3 and v4 and v5
    rule: obj_get_obj_item_walk_get_value_getitem.pinduct)
  case (1 obj k)
  then show ?case
    by (fastforce simp: obj_get.psimps
        split: val.splits option.splits sum.splits error.splits dest!: map_of_size)
next
  case (2 obj k)
  then show ?case
    by (fastforce simp: obj_item.psimps
        split: val.splits option.splits sum.splits key.splits dest!: map_of_size)
next
  case (3 obj)
  then show ?case by (simp add: walk.psimps)
next
  case (4 k ks obj)
  then show ?case
    by (fastforce simp: walk.psimps split: sum.splits if_splits)
next
  case (5 ck nm obj)
  then show ?case
    by (auto simp: get_value.psimps split: key.splits)
next
  case (6 ck nm oc obj)
  then show ?case
    by (fastforce simp: get_value.psimps split: sum.splits)
next
  case (7 t r k)
  then show ?case
    by (auto simp: getitem.psimps split: sum.splits option.splits val.splits
        dest!: parent_row_size) (force+)
qed

termination obj_get
  by (relation "inv_image (measure id <*lex*> measure id <*lex*> measure id)
     (\<lambda>x. case x of
         Inl (Inl (obj, k)) \<Rightarrow> (size obj, 0::nat, 0::nat)
       | Inl (Inr (obj, k)) \<Rightarrow> (size obj, 0, 0)
       | Inr (Inl (ks, obj)) \<Rightarrow> (size obj, 1, length ks)
       | Inr (Inr (Inl (c, obj))) \<Rightarrow> (size obj, 2, size c)
       | Inr (Inr (Inr (lr, k))) \<Rightarrow> (size lr, 3, 0))")
    (auto dest: result_size_dom dest!: parent_row_size)

text \<open>The same fact for the total functions.\<close>

lemma result_size:
  "obj_get obj s = Inr v1 \<Longrightarrow> size v1 \<le> size obj"
  "obj_item obj2 k2 = Inr v2 \<Longrightarrow> size v2 \<le> size obj2"
  "walk ks obj3 = Inr v3 \<Longrightarrow> size v3 \<le> size obj3"
  "get_value c obj4 = Inr v4 \<Longrightarrow> size v4 \<le> size obj4"
  "getitem lr k5 = Inr v5 \<Longrightarrow> size v5 \<le> size lr"
proof (induction obj s and obj2 k2 and ks obj3 and c obj4 and lr k5
    arbitrary: v1 and v2 and v3 and v4 and v5
    rule: obj_get_obj_item_walk_get_value_getitem.induct)
  case (1 obj k)
  then show ?case
    by (fastforce split: val.splits option.splits sum.splits error.splits dest!: map_of_size)
next
  case (2 obj k)
  then show ?case
    by (fastforce split: val.splits option.splits sum.splits key.splits dest!: map_of_size)
next
  case (3 obj)
  then show ?case by simp
next
  case (4 k ks obj)
  then show ?case
    by (fastforce split: sum.splits if_splits)
next
  case (5 ck nm obj)
  then show ?case
    by (auto split: key.splits)
next
  case (6 ck nm oc obj)
  then show ?case
    by (fastforce split: sum.splits)
next
  case (7 t r k)
  then show ?case
    by (auto split: sum.splits option.splits val.splits dest!: parent_row_size) (force+)
qed

lemmas get_value_size = result_size(4)


section \<open>Table introspection\<close>

text \<open>\<open>Table.__len__\<close> and \<open>Table.current_col\<close> (\<open>self.columns[-1]\<close>).\<close>

definition len :: "table \<Rightarrow> nat" where
  "len t = length (rows t)"

definition current_col :: "table \<Rightarrow> error + column" where
  "current_col t = (if columns t = [] then Inl IndexError else Inr (last (columns t)))"

text \<open>\<open>Table.shape\<close> and \<open>Table.rank\<close>.\<close>

function shape :: "table \<Rightarrow> error + nat list" where
  "shape t =
     (if scalar t \<noteq> VNone then Inr []
      else if rows t \<noteq> [] \<and> columns t \<noteq> [] then
        (case current_col t of
           Inl e \<Rightarrow> Inl e
         | Inr c \<Rightarrow>
             (case get_value c (VDict (hd (rows t))) of
                Inl e \<Rightarrow> Inl e
              | Inr (VTable firstrowval) \<Rightarrow>
                  (case shape firstrowval of
                     Inl e \<Rightarrow> Inl e
                   | Inr dims \<Rightarrow> Inr ([length (rows t)] @ dims))
              | Inr _ \<Rightarrow> Inr [length (rows t)]))
      else Inr [length (rows t)])"
  by pat_completeness auto

lemma hd_rows_size:
  "rows t \<noteq> [] \<Longrightarrow> size_list (size_prod (\<lambda>x. 0) size) (hd (rows t)) < size t"
  by (cases t; cases "rows t") auto

termination shape
proof (relation "measure size", goal_cases)
  case 1
  show ?case by simp
next
  case (2 t c v firstrowval)
  from 2 have "size (VTable firstrowval) \<le> size (VDict (hd (rows t)))"
    using get_value_size by metis
  moreover from 2 have "size_list (size_prod (\<lambda>x. 0) size) (hd (rows t)) < size t"
    by (simp add: hd_rows_size)
  ultimately show ?case by simp
qed

declare shape.simps [simp del]

definition rank :: "table \<Rightarrow> error + nat" where
  "rank t = (case shape t of Inl e \<Rightarrow> Inl e | Inr dims \<Rightarrow> Inr (length dims))"

text \<open>
  \<open>Table.__getitem__\<close>. The index is a Python integer; below the guard the list is indexed
  as Python does, a negative index counting from the end and raising when it is out of
  range too.
\<close>

definition Table_getitem :: "table \<Rightarrow> int \<Rightarrow> error + lazyrow" where
  "Table_getitem t k =
     (let n = int (length (rows t)) in
      if k \<ge> n then Inl IndexError
      else if 0 \<le> k then Inr (LazyRow t (rows t ! nat k))
      else if - n \<le> k then Inr (LazyRow t (rows t ! nat (n + k)))
      else Inl IndexError)"

section \<open>Flattening\<close>

text \<open>
  What \<open>_asdict\<close> produces: a value kept as it is (a primitive, the scalar of a rank-0
  table, or the text of another object), or the list of the flattened rows of a nested
  table. A flattened row is a \<open>dict\<close>, in insertion order.
\<close>

datatype flat = FVal val | FRows "(string \<times> flat) list list"

text \<open>\<open>if k in d: del d[k]\<close> followed by \<open>d[k] = v\<close>: the key moves to the end.\<close>

definition dict_set :: "(string \<times> 'a) list \<Rightarrow> string \<Rightarrow> 'a \<Rightarrow> (string \<times> 'a) list" where
  "dict_set d k v = filter (\<lambda>kv. fst kv \<noteq> k) d @ [(k, v)]"

text \<open>
  \<open>LazyRow._asdict\<close>. \<open>asdict_cols\<close> is its loop over \<open>self._table.columns\<close>, with the rest
  of the column list and the dictionary built so far; the column list holds each column
  object once (\<open>add_column\<close> refuses a name that is present), so \<open>c is current_col\<close>
  holds exactly at the last position, where the rest is empty. \<open>asdict_value\<close> is the
  chain of tests on the value \<open>v\<close> in the loop body: \<open>None\<close> when the column is skipped,
  else the value stored. \<open>asdict_rows\<close> is the comprehension \<open>[r._asdict() for r in v]\<close>:
  it is reached with \<open>v.scalar\<close> being \<open>None\<close> only, where \<open>Table.__iter__\<close> yields
  \<open>LazyRow(v, r)\<close> for every row of \<open>v\<close>. Python's builtin \<open>str\<close> is a parameter.
\<close>

function LazyRow_asdict :: "(val \<Rightarrow> string) \<Rightarrow> bool \<Rightarrow> lazyrow \<Rightarrow> error + (string \<times> flat) list"
  and asdict_cols :: "(val \<Rightarrow> string) \<Rightarrow> bool \<Rightarrow> row \<Rightarrow> column list \<Rightarrow> (string \<times> flat) list
        \<Rightarrow> error + (string \<times> flat) list"
  and asdict_value :: "(val \<Rightarrow> string) \<Rightarrow> val \<Rightarrow> error + flat option"
  and asdict_rows :: "(val \<Rightarrow> string) \<Rightarrow> table \<Rightarrow> row list \<Rightarrow> error + (string \<times> flat) list list"
where
  "LazyRow_asdict str named_only (LazyRow t r) = asdict_cols str named_only r (columns t) []"
| "asdict_cols str named_only r [] d = Inr d"
| "asdict_cols str named_only r (c # cs) d =
     (if hidden c \<and> (named_only \<or> cs \<noteq> []) then asdict_cols str named_only r cs d
      else
        let k = (if hidden c then CURRENT_COLNAME else name c) in
        case get_value c (VDict r) of
          Inl e \<Rightarrow> Inl e
        | Inr v \<Rightarrow>
            (case asdict_value str v of
               Inl e \<Rightarrow> Inl e
             | Inr None \<Rightarrow> asdict_cols str named_only r cs d
             | Inr (Some v') \<Rightarrow> asdict_cols str named_only r cs (dict_set d k v')))"
| "asdict_value str VNone = Inr None"
| "asdict_value str (VTable v) =
     (case rank v of
        Inl e \<Rightarrow> Inl e
      | Inr n \<Rightarrow>
          if n = 0 then Inr (Some (FVal (scalar v)))
          else
            (case asdict_rows str v (rows v) of
               Inl e \<Rightarrow> Inl e
             | Inr ds \<Rightarrow> Inr (Some (FRows ds))))"
| "asdict_value str (VInt i) = Inr (Some (FVal (VInt i)))"
| "asdict_value str (VFloat x) = Inr (Some (FVal (VFloat x)))"
| "asdict_value str (VStr s) = Inr (Some (FVal (VStr s)))"
| "asdict_value str (VDict m) = Inr (Some (FVal (VStr (str (VDict m)))))"
| "asdict_value str (VLazy lr) = Inr (Some (FVal (VStr (str (VLazy lr)))))"
| "asdict_value str (VObj x) = Inr (Some (FVal (VStr (str (VObj x)))))"
| "asdict_value str UNWORKING = Inr (Some (FVal (VStr (str UNWORKING))))"
| "asdict_rows str v [] = Inr []"
| "asdict_rows str v (r # rs) =
     (case LazyRow_asdict str False (LazyRow v r) of
        Inl e \<Rightarrow> Inl e
      | Inr d \<Rightarrow>
          (case asdict_rows str v rs of
             Inl e \<Rightarrow> Inl e
           | Inr ds \<Rightarrow> Inr (d # ds)))"
  by pat_completeness auto

lemma rows_size:
  "size_list (size_list (size_prod (\<lambda>x. 0) size)) (rows t) < size t"
  by (cases t) auto

termination LazyRow_asdict
  by (relation "inv_image (measure id <*lex*> measure id <*lex*> measure id)
     (\<lambda>x. case x of
         Inl (Inl (str, n, lr)) \<Rightarrow> (size (VDict (row_of lr)), 2::nat, 0::nat)
       | Inl (Inr (str, n, r, cs, d)) \<Rightarrow> (size (VDict r), 1, length cs)
       | Inr (Inl (str, v)) \<Rightarrow> (size v, 0, 0)
       | Inr (Inr (str, v, rs)) \<Rightarrow>
           (size_list (size_list (size_prod (\<lambda>x. 0) size)) rs, 3, 0))")
    (auto dest: get_value_size simp: rows_size less_imp_le less_Suc_eq_le)

text \<open>\<open>Table._asdict\<close>.\<close>

definition Table_asdict :: "(val \<Rightarrow> string) \<Rightarrow> table \<Rightarrow> error + flat" where
  "Table_asdict str t =
     (if scalar t \<noteq> VNone then Inr (FVal (scalar t))
      else (case asdict_rows str t (rows t) of Inl e \<Rightarrow> Inl e | Inr ds \<Rightarrow> Inr (FRows ds)))"

section \<open>Construction\<close>

text \<open>
  \<open>Table.add_column\<close>. Both assertions come before the test on the name; the second
  evaluates \<open>col.get_value(self.rows[0])\<close>, which can raise. The table is mutated by the
  final \<open>append\<close> only, so an exception leaves it as it was.
\<close>

definition add_column :: "table \<Rightarrow> column \<Rightarrow> error + table" where
  "add_column t col =
     (if startswith (name col) ''__'' then Inl AssertionError
      else
        case (if rows t \<noteq> [] then
                (case get_value col (VDict (hd (rows t))) of
                   Inl e \<Rightarrow> Some e
                 | Inr v \<Rightarrow> if v = UNWORKING then Some AssertionError else None)
              else None) of
          Some e \<Rightarrow> Inl e
        | None \<Rightarrow>
            if name col \<in> set (colnames t) then Inr t
            else Inr (Table (rows t) (columns t @ [col]) (scalar t) (parent t)))"

text \<open>\<open>Table.add_new_columns\<close>: the loop over \<open>row.keys()\<close>.\<close>

fun add_new_columns_keys :: "table \<Rightarrow> string list \<Rightarrow> error + table" where
  "add_new_columns_keys t [] = Inr t"
| "add_new_columns_keys t (k # ks) =
     (if \<not> startswith k ''__'' then
        (case add_column t (Column_init k []) of
           Inl e \<Rightarrow> Inl e
         | Inr t' \<Rightarrow> add_new_columns_keys t' ks)
      else add_new_columns_keys t ks)"

definition add_new_columns :: "table \<Rightarrow> row \<Rightarrow> error + table" where
  "add_new_columns t r = add_new_columns_keys t (map fst r)"

text \<open>
  \<open>Table.__init__\<close>. The argument is a list or tuple of row inputs, or anything else, which
  becomes the scalar. \<open>init_rows\<close> is the loop over the inputs: a \<open>LazyRow\<close> gives its
  \<open>_row\<close>, a mapping is appended and its keys are registered, any other input raises.
\<close>

datatype rows_arg = Sequence "val list" | NotSequence val

fun init_rows :: "table \<Rightarrow> val list \<Rightarrow> error + table" where
  "init_rows t [] = Inr t"
| "init_rows t (VLazy lr # xs) =
     init_rows (Table (rows t @ [row_of lr]) (columns t) (scalar t) (parent t)) xs"
| "init_rows t (VDict r # xs) =
     (case add_new_columns (Table (rows t @ [r]) (columns t) (scalar t) (parent t)) r of
        Inl e \<Rightarrow> Inl e
      | Inr t' \<Rightarrow> init_rows t' xs)"
| "init_rows t (_ # xs) = Inl TypeError"

definition Table_init :: "rows_arg \<Rightarrow> table option \<Rightarrow> error + table" where
  "Table_init arg par =
     (case arg of
        Sequence xs \<Rightarrow> init_rows (Table [] [] VNone par) xs
      | NotSequence s \<Rightarrow> Inr (Table [] [] s par))"

text \<open>
  \<open>Table.__copy__\<close>: the columns are added one by one to a new empty table (a copy of a
  column has the same fields), then the scalar is set.
\<close>

fun copy_columns :: "table \<Rightarrow> column list \<Rightarrow> error + table" where
  "copy_columns ret [] = Inr ret"
| "copy_columns ret (c # cs) =
     (case add_column ret c of
        Inl e \<Rightarrow> Inl e
      | Inr ret' \<Rightarrow> copy_columns ret' cs)"

definition Table_copy :: "table \<Rightarrow> error + table" where
  "Table_copy t =
     (case copy_columns (Table [] [] VNone None) (columns t) of
        Inl e \<Rightarrow> Inl e
      | Inr ret \<Rightarrow> Inr (Table [] (columns ret) (scalar t) (parent ret)))"

section \<open>Notions used to state the properties\<close>

text \<open>
  The scope chain of a \<open>LazyRow\<close>: the row itself, then the rows reached through the
  \<open>__parent\<close> links as long as these are \<open>LazyRow\<close>s; \<open>chain_end\<close> is the value of
  \<open>parent_row\<close> that ends the chain (\<open>None\<close> when the last row has no link).
\<close>

function scope_chain :: "lazyrow \<Rightarrow> lazyrow list" where
  "scope_chain lr = lr # (case parent_row lr of VLazy p \<Rightarrow> scope_chain p | _ \<Rightarrow> [])"
  by pat_completeness auto
termination
  by (relation "measure size") (auto dest: parent_row_size)

function chain_end :: "lazyrow \<Rightarrow> val" where
  "chain_end lr = (case parent_row lr of VLazy p \<Rightarrow> chain_end p | v \<Rightarrow> v)"
  by pat_completeness auto
termination
  by (relation "measure size") (auto dest: parent_row_size)

declare scope_chain.simps [simp del] chain_end.simps [simp del]

text \<open>The elements of a list in the order of their first occurrence.\<close>

primrec first_seen :: "'a list \<Rightarrow> 'a list" where
  "first_seen [] = []"
| "first_seen (x # xs) = x # filter (\<lambda>y. y \<noteq> x) (first_seen xs)"

text \<open>The schema after offering the names \<open>ks\<close> to a table whose column names are \<open>acc\<close>.\<close>

definition extend :: "string list \<Rightarrow> string list \<Rightarrow> string list" where
  "extend acc ks = acc @ filter (\<lambda>k. k \<notin> set acc) (first_seen ks)"

text \<open>The row a constructor input contributes, and the field names it offers as columns.\<close>

fun row_in :: "val \<Rightarrow> row" where
  "row_in (VDict r) = r"
| "row_in (VLazy lr) = row_of lr"
| "row_in _ = []"

fun keys_in :: "val \<Rightarrow> string list" where
  "keys_in (VDict r) = map fst r"
| "keys_in _ = []"

text \<open>The key under which \<open>LazyRow._asdict\<close> stores the value of a column it retains.\<close>

definition out_key :: "column \<Rightarrow> string" where
  "out_key c = (if hidden c then CURRENT_COLNAME else name c)"

text \<open>
  Position \<open>i\<close> of the column list is retained by \<open>LazyRow._asdict\<close>: the column there is
  not hidden, or \<open>named_only\<close> is false and it is the last one.
\<close>

definition retained :: "bool \<Rightarrow> column list \<Rightarrow> nat \<Rightarrow> bool" where
  "retained named_only cs i =
     (i < length cs \<and> \<not> (hidden (cs ! i) \<and> (named_only \<or> Suc i \<noteq> length cs)))"

section \<open>Example tables\<close>

text \<open>
  A parent table with the column \<open>a\<close> and one row, and a child table with the column \<open>b\<close>
  whose row carries the \<open>__parent\<close> link to the parent's row.
\<close>

definition ex_parent_tab :: table where
  "ex_parent_tab = Table [[(''a'', VInt 1)]] [Column (KStr ''a'') ''a''] VNone None"

definition ex_parent_row :: lazyrow where
  "ex_parent_row = LazyRow ex_parent_tab [(''a'', VInt 1)]"

definition ex_child_dict :: row where
  "ex_child_dict = [(''b'', VInt 2), (''__parent'', VLazy ex_parent_row)]"

definition ex_child_tab :: table where
  "ex_child_tab = Table [ex_child_dict] [Column (KStr ''b'') ''b''] VNone None"

definition ex_child_row :: lazyrow where
  "ex_child_row = LazyRow ex_child_tab ex_child_dict"

text \<open>
  An outer table with one row and two columns, each holding a nested table: the sibling
  column \<open>z\<close> one of three rows, the current column \<open>x\<close> one of two rows.
\<close>

definition ex_inner2 :: table where
  "ex_inner2 = Table [[(''y'', VInt 1)], [(''y'', VInt 2)]] [Column (KStr ''y'') ''y''] VNone None"

definition ex_inner3 :: table where
  "ex_inner3 = Table [[(''w'', VInt 1)], [(''w'', VInt 2)], [(''w'', VInt 3)]]
     [Column (KStr ''w'') ''w''] VNone None"

definition ex_outer :: table where
  "ex_outer = Table [[(''z'', VTable ex_inner3), (''x'', VTable ex_inner2)]]
     [Column (KStr ''z'') ''z'', Column (KStr ''x'') ''x''] VNone None"

text \<open>
  A table for flattening: a row with a zero, an empty string, a field stored as \<open>None\<close>
  and a nested mapping whose field \<open>q\<close> is \<open>None\<close>; columns for these, for a field that
  is missing, for two paths that stop inside the nested mapping, and two hidden columns,
  the second of which is the current one.
\<close>

definition ex_flat_dict :: row where
  "ex_flat_dict = [(''n'', VInt 0), (''s'', VStr []), (''gone'', VNone),
     (''p'', VDict [(''q'', VNone)]), (''_tmp'', VInt 9), (''_cur'', VInt 7)]"

definition ex_flat_cols :: "column list" where
  "ex_flat_cols = [Column (KStr ''n'') ''n'', Column (KStr ''s'') ''s'',
     Column (KStr ''gone'') ''gone'', Column (KStr ''miss'') ''miss'',
     Column (KList [''p'', ''q'', ''z'']) ''deep'', Column (KTuple [''p'', ''w'', ''z'']) ''far'',
     Column (KStr ''_tmp'') ''_tmp'', Column (KStr ''_cur'') ''_cur'']"

definition ex_flat_tab :: table where
  "ex_flat_tab = Table [ex_flat_dict] ex_flat_cols VNone None"


lemmas ex_defs =
  ex_parent_tab_def ex_parent_row_def ex_child_dict_def ex_child_tab_def ex_child_row_def

section \<open>Properties\<close>

subsection \<open>Indexing a table\<close>

text \<open>
  C9. Indexing a table at a position at or beyond its row count raises \<open>IndexError\<close>; at
  a position \<open>k\<close> with \<open>0 \<le> k\<close> below the row count it returns the \<open>LazyRow\<close> of this
  table and its \<open>k\<close>-th row.
\<close>

theorem Table_getitem_index:
  "(int (len t) \<le> k \<longrightarrow> Table_getitem t k = Inl IndexError) \<and>
   (0 \<le> k \<and> k < int (len t) \<longrightarrow> Table_getitem t k = Inr (LazyRow t (rows t ! nat k)))"
  by (simp add: Table_getitem_def len_def Let_def)

theorem Table_getitem_index_witness:
  "int (len (Table [[(''a'', VInt 1)], [(''a'', VInt 3)]] [Column (KStr ''a'') ''a''] VNone None)) \<le> 2 \<and>
   Table_getitem (Table [[(''a'', VInt 1)], [(''a'', VInt 3)]] [Column (KStr ''a'') ''a''] VNone None) 2
     = Inl IndexError \<and>
   (0::int) \<le> 1 \<and>
   1 < int (len (Table [[(''a'', VInt 1)], [(''a'', VInt 3)]] [Column (KStr ''a'') ''a''] VNone None)) \<and>
   Table_getitem (Table [[(''a'', VInt 1)], [(''a'', VInt 3)]] [Column (KStr ''a'') ''a''] VNone None) 1
     = Inr (LazyRow (Table [[(''a'', VInt 1)], [(''a'', VInt 3)]] [Column (KStr ''a'') ''a''] VNone None)
         [(''a'', VInt 3)])"
  using Table_getitem_index [of "Table [[(''a'', VInt 1)], [(''a'', VInt 3)]] [Column (KStr ''a'') ''a''] VNone None" 2]
    Table_getitem_index [of "Table [[(''a'', VInt 1)], [(''a'', VInt 3)]] [Column (KStr ''a'') ''a''] VNone None" 1]
  by (simp add: len_def)

subsection \<open>Scalar tables\<close>

text \<open>
  C4, as stated, at the value \<open>None\<close>: \<open>Table(None)\<close> stores \<open>None\<close> as its scalar, which is
  the marker of a table that has no scalar, so its shape is \<open>[0]\<close>, its rank is 1 and its
  flattening is the empty list.
\<close>

theorem scalar_table_None_counterexample:
  "Table_init (NotSequence VNone) None = Inr (Table [] [] VNone None) \<and>
   shape (Table [] [] VNone None) = Inr [0] \<and>
   rank (Table [] [] VNone None) = Inr 1 \<and>
   Table_asdict (\<lambda>v. []) (Table [] [] VNone None) = Inr (FRows [])"
  by (simp add: Table_init_def shape.simps rank_def Table_asdict_def)

text \<open>
  C4, amended. For every scalar value \<open>s\<close> other than \<open>None\<close>, the table constructed from
  \<open>s\<close> has the empty shape and rank 0, and its flattening returns exactly \<open>s\<close>.
\<close>

theorem scalar_table:
  "s \<noteq> VNone \<Longrightarrow>
   \<exists>t. Table_init (NotSequence s) par = Inr t \<and>
       shape t = Inr [] \<and> rank t = Inr 0 \<and> Table_asdict str t = Inr (FVal s)"
  by (simp add: Table_init_def shape.simps rank_def Table_asdict_def)

theorem scalar_table_witness:
  "VInt 5 \<noteq> VNone \<and>
   (\<exists>t. Table_init (NotSequence (VInt 5)) None = Inr t \<and>
       shape t = Inr [] \<and> rank t = Inr 0 \<and> Table_asdict (\<lambda>v. []) t = Inr (FVal (VInt 5)))"
  using scalar_table [of "VInt 5" None "\<lambda>v. []"] by simp

subsection \<open>Sub-columns\<close>

text \<open>
  C6, as stated, at a row without the sub-row: \<open>SubColumn.get_value\<close> indexes the row with
  \<open>row[self.key]\<close>, which raises \<open>KeyError\<close>.
\<close>

theorem SubColumn_absent_counterexample:
  "map_of [(''id'', VInt 7)] ''inner'' = None \<and>
   get_value (SubColumn (KStr ''inner'') ''x'' (Column (KStr ''x'') ''x'')) (VDict [(''id'', VInt 7)])
     = Inl (KeyError (KStr ''inner''))"
  by (simp add: obj_item.simps)

text \<open>
  C6, amended. For a \<open>SubColumn\<close> with a field name as key: on a row that has no entry at
  that key, \<open>get_value\<close> raises \<open>KeyError\<close> with the key; on a row that has one, it equals
  the origin column's \<open>get_value\<close> applied to the value stored there.
\<close>

theorem SubColumn_get_value:
  "(map_of r k = None \<longrightarrow>
      get_value (SubColumn (KStr k) nm oc) (VDict r) = Inl (KeyError (KStr k))) \<and>
   (map_of r k = Some sub \<longrightarrow>
      get_value (SubColumn (KStr k) nm oc) (VDict r) = get_value oc sub)"
  by (simp add: obj_item.simps)

theorem SubColumn_get_value_witness:
  "map_of [(''id'', VInt 7)] ''inner'' = None \<and>
   get_value (SubColumn (KStr ''inner'') ''x'' (Column (KStr ''x'') ''x'')) (VDict [(''id'', VInt 7)])
     = Inl (KeyError (KStr ''inner'')) \<and>
   map_of [(''inner'', VDict [(''x'', VInt 0)])] ''inner'' = Some (VDict [(''x'', VInt 0)]) \<and>
   get_value (SubColumn (KStr ''inner'') ''x'' (Column (KStr ''x'') ''x''))
       (VDict [(''inner'', VDict [(''x'', VInt 0)])])
     = get_value (Column (KStr ''x'') ''x'') (VDict [(''x'', VInt 0)]) \<and>
   get_value (Column (KStr ''x'') ''x'') (VDict [(''x'', VInt 0)]) = Inr (VInt 0)"
  using SubColumn_get_value [where r = "[(''id'', VInt 7)]" and k = "''inner''" and nm = "''x''"
      and oc = "Column (KStr ''x'') ''x''"]
    SubColumn_get_value [where r = "[(''inner'', VDict [(''x'', VInt 0)])]" and k = "''inner''"
      and sub = "VDict [(''x'', VInt 0)]" and nm = "''x''" and oc = "Column (KStr ''x'') ''x''"]
  by simp

subsection \<open>Lookup through the scope chain\<close>

lemma find_name_None: "find (\<lambda>c. name c = k) cs = None \<longleftrightarrow> k \<notin> set (map name cs)"
  by (induction cs) auto

lemma getitem_step:
  assumes "k \<noteq> CURRENT_COLNAME"
  shows "getitem lr (KStr k) =
     (case find (\<lambda>c. name c = k) (columns (table_of lr)) of
        Some c \<Rightarrow> get_value c (VDict (row_of lr))
      | None \<Rightarrow>
          (case parent_row lr of
             VNone \<Rightarrow> Inl (KeyError (KStr k))
           | VLazy p \<Rightarrow> getitem p (KStr k)
           | _ \<Rightarrow> Inl AttributeError))"
  using assms by (cases lr) (simp add: get_column_def split: option.splits)

lemma scope_chain_Cons:
  "scope_chain lr = x # rest \<Longrightarrow>
     x = lr \<and> (rest \<noteq> [] \<longrightarrow> (\<exists>p. parent_row lr = VLazy p \<and> scope_chain p = rest))"
  by (subst (asm) scope_chain.simps) (auto split: val.splits)

lemma getitem_found:
  assumes "k \<noteq> CURRENT_COLNAME"
  shows "scope_chain lr = pre @ a # post \<Longrightarrow>
     \<forall>x\<in>set pre. k \<notin> set (colnames (table_of x)) \<Longrightarrow>
     find (\<lambda>c. name c = k) (columns (table_of a)) = Some c \<Longrightarrow>
     getitem lr (KStr k) = get_value c (VDict (row_of a))"
proof (induction pre arbitrary: lr)
  case Nil
  then have "a = lr" using scope_chain_Cons [of lr a post] by simp
  with Nil show ?case by (simp add: getitem_step [OF assms])
next
  case (Cons x pre)
  from Cons.prems(1) have "scope_chain lr = x # (pre @ a # post)" by simp
  from scope_chain_Cons [OF this] obtain p where
    x: "x = lr" and p: "parent_row lr = VLazy p" "scope_chain p = pre @ a # post"
    by auto
  from Cons.prems(2) x have "find (\<lambda>c. name c = k) (columns (table_of lr)) = None"
    by (simp add: find_name_None colnames_def)
  then have "getitem lr (KStr k) = getitem p (KStr k)"
    using p by (simp add: getitem_step [OF assms])
  also have "\<dots> = get_value c (VDict (row_of a))"
    using Cons.IH [OF p(2)] Cons.prems by simp
  finally show ?case .
qed

lemma getitem_missing:
  assumes "k \<noteq> CURRENT_COLNAME"
  shows "\<forall>x\<in>set (scope_chain lr). k \<notin> set (colnames (table_of x)) \<Longrightarrow>
     chain_end lr = VNone \<Longrightarrow>
     getitem lr (KStr k) = Inl (KeyError (KStr k))"
proof (induction lr rule: scope_chain.induct)
  case (1 lr)
  have here: "find (\<lambda>c. name c = k) (columns (table_of lr)) = None"
    using "1.prems"(1) by (subst (asm) scope_chain.simps) (simp add: find_name_None colnames_def)
  show ?case
  proof (cases "parent_row lr")
    case (VLazy p)
    have "\<forall>x\<in>set (scope_chain p). k \<notin> set (colnames (table_of x))"
      using "1.prems"(1) VLazy by (subst (asm) scope_chain.simps) simp
    moreover have "chain_end p = VNone"
      using "1.prems"(2) VLazy by (subst (asm) chain_end.simps) simp
    ultimately have "getitem p (KStr k) = Inl (KeyError (KStr k))"
      using "1.IH" VLazy by simp
    then show ?thesis using here VLazy by (simp add: getitem_step [OF assms])
  qed (use here "1.prems"(2) in \<open>simp_all add: getitem_step [OF assms] chain_end.simps [of lr]\<close>)
qed

text \<open>
  C1, as stated, at the field name \<open>_\<close>: no table of the chain has a column of that name,
  yet the lookup returns the value of the last column of the row's own table, since
  \<open>get_column\<close> answers the alias of the current column before it compares any name.
  On a row of a table that has no column at all, as \<open>Table([{}])\<close> has, the same lookup
  raises \<open>IndexError\<close>, not \<open>KeyError\<close>.
\<close>

theorem getitem_alias_counterexample:
  "''_'' \<notin> set (colnames (table_of ex_child_row)) \<and>
   ''_'' \<notin> set (colnames (table_of ex_parent_row)) \<and>
   scope_chain ex_child_row = [ex_child_row, ex_parent_row] \<and>
   chain_end ex_child_row = VNone \<and>
   getitem ex_child_row (KStr ''_'') = Inr (VInt 2) \<and>
   Table_init (Sequence [VDict []]) None = Inr (Table [[]] [] VNone None) \<and>
   Table_getitem (Table [[]] [] VNone None) 0 = Inr (LazyRow (Table [[]] [] VNone None) []) \<and>
   getitem (LazyRow (Table [[]] [] VNone None) []) (KStr ''_'') = Inl IndexError"
  by (simp add: ex_defs colnames_def scope_chain.simps chain_end.simps parent_row_def
      get_column_def CURRENT_COLNAME_def Table_init_def add_new_columns_def Table_getitem_def)

text \<open>
  C1, amended. For every field name other than the alias \<open>_\<close> of the current column: if
  the tables of the rows before some row of the scope chain have no column of that name
  and the table of that row has one, the lookup returns the value of that column for that
  row; if no table of the chain has a column of that name and the chain ends (the last
  row has no \<open>__parent\<close> link, or \<open>None\<close>), the lookup raises \<open>KeyError\<close> with the name.
\<close>

theorem getitem_scope_chain:
  assumes "k \<noteq> CURRENT_COLNAME"
  shows "(scope_chain lr = pre @ a # post \<and>
          (\<forall>x\<in>set pre. k \<notin> set (colnames (table_of x))) \<and>
          find (\<lambda>c. name c = k) (columns (table_of a)) = Some c \<longrightarrow>
            getitem lr (KStr k) = get_value c (VDict (row_of a))) \<and>
         ((\<forall>x\<in>set (scope_chain lr). k \<notin> set (colnames (table_of x))) \<and>
          chain_end lr = VNone \<longrightarrow>
            getitem lr (KStr k) = Inl (KeyError (KStr k)))"
  using getitem_found [OF assms] getitem_missing [OF assms] by blast

theorem getitem_scope_chain_witness:
  "''a'' \<noteq> CURRENT_COLNAME \<and>
   scope_chain ex_child_row = [ex_child_row] @ ex_parent_row # [] \<and>
   ''a'' \<notin> set (colnames (table_of ex_child_row)) \<and>
   find (\<lambda>c. name c = ''a'') (columns (table_of ex_parent_row)) = Some (Column (KStr ''a'') ''a'') \<and>
   getitem ex_child_row (KStr ''a'') = get_value (Column (KStr ''a'') ''a'') (VDict (row_of ex_parent_row)) \<and>
   getitem ex_child_row (KStr ''a'') = Inr (VInt 1) \<and>
   ''zz'' \<noteq> CURRENT_COLNAME \<and>
   ''zz'' \<notin> set (colnames (table_of ex_child_row)) \<and>
   ''zz'' \<notin> set (colnames (table_of ex_parent_row)) \<and>
   chain_end ex_child_row = VNone \<and>
   getitem ex_child_row (KStr ''zz'') = Inl (KeyError (KStr ''zz''))"
  using getitem_scope_chain [of "''a''" ex_child_row "[ex_child_row]" ex_parent_row "[]"
      "Column (KStr ''a'') ''a''"]
    getitem_scope_chain [of "''zz''" ex_child_row "[]" ex_child_row "[ex_parent_row]"
      "Column (KStr ''b'') ''b''"]
  by (simp add: ex_defs colnames_def scope_chain.simps chain_end.simps parent_row_def
      CURRENT_COLNAME_def)

subsection \<open>Shape and rank\<close>

lemma shape_nonscalar:
  assumes "scalar t = VNone" "rows t \<noteq> []" "current_col t = Inr c"
    and "get_value c (VDict (hd (rows t))) = Inr (VTable t')" "shape t' = Inr S"
  shows "shape t = Inr (length (rows t) # S)"
proof -
  from assms(3) have "columns t \<noteq> []"
    by (auto simp: current_col_def split: if_splits)
  with assms show ?thesis
    by (subst shape.simps) simp
qed

text \<open>
  C5. For a non-scalar table with \<open>N\<close> rows whose current (last) column's value on the
  first row is a table of shape \<open>S\<close>, the shape is \<open>N\<close> followed by \<open>S\<close> and the rank is the
  length of that list; the same holds with any sibling columns put before the current
  column, whatever they hold.
\<close>

theorem shape_nested:
  assumes "scalar t = VNone" and "rows t \<noteq> []" and "current_col t = Inr c"
    and "get_value c (VDict (hd (rows t))) = Inr (VTable t')" and "shape t' = Inr S"
  shows "shape t = Inr (len t # S) \<and>
         rank t = Inr (length (len t # S)) \<and>
         shape (Table (rows t) (siblings @ [c]) VNone par) = Inr (len t # S)"
proof -
  have 1: "shape t = Inr (len t # S)"
    using shape_nonscalar [OF assms] by (simp add: len_def)
  have "shape (Table (rows t) (siblings @ [c]) VNone par) = Inr (length (rows t) # S)"
    using assms(2,4,5) shape_nonscalar [of "Table (rows t) (siblings @ [c]) VNone par" c t' S]
    by (simp add: current_col_def)
  with 1 show ?thesis by (simp add: rank_def len_def)
qed

theorem shape_nested_witness:
  "scalar ex_outer = VNone \<and> rows ex_outer \<noteq> [] \<and>
   current_col ex_outer = Inr (Column (KStr ''x'') ''x'') \<and>
   get_value (Column (KStr ''x'') ''x'') (VDict (hd (rows ex_outer))) = Inr (VTable ex_inner2) \<and>
   shape ex_inner2 = Inr [2] \<and>
   shape ex_outer = Inr (len ex_outer # [2]) \<and>
   shape ex_outer = Inr [1, 2] \<and>
   rank ex_outer = Inr 2 \<and>
   shape (Table (rows ex_outer) ([] @ [Column (KStr ''x'') ''x'']) VNone None) = Inr [1, 2] \<and>
   get_value (Column (KStr ''z'') ''z'') (VDict (hd (rows ex_outer))) = Inr (VTable ex_inner3) \<and>
   shape ex_inner3 = Inr [3]"
proof -
  have a: "scalar ex_outer = VNone" "rows ex_outer \<noteq> []"
    "current_col ex_outer = Inr (Column (KStr ''x'') ''x'')"
    "get_value (Column (KStr ''x'') ''x'') (VDict (hd (rows ex_outer))) = Inr (VTable ex_inner2)"
    by (simp_all add: ex_outer_def current_col_def)
  have b: "shape ex_inner2 = Inr [2]" "shape ex_inner3 = Inr [3]"
    by (simp_all add: ex_inner2_def ex_inner3_def shape.simps current_col_def)
  have z: "get_value (Column (KStr ''z'') ''z'') (VDict (hd (rows ex_outer))) = Inr (VTable ex_inner3)"
    by (simp add: ex_outer_def)
  have l: "len ex_outer = 1" by (simp add: ex_outer_def len_def)
  from shape_nested [OF a b(1), of "[]" None] a b z l show ?thesis
    by simp
qed

subsection \<open>Construction: rows and schema\<close>

lemma set_first_seen [simp]: "set (first_seen xs) = set xs"
  by (induction xs) auto

lemma distinct_first_seen [simp]: "distinct (first_seen xs)"
  by (induction xs) auto

lemma first_seen_append:
  "first_seen (xs @ ys) = first_seen xs @ filter (\<lambda>y. y \<notin> set xs) (first_seen ys)"
proof (induction xs)
  case Nil
  show ?case by simp
next
  case (Cons x xs)
  have "filter (\<lambda>y. y \<noteq> x) (filter (\<lambda>y. y \<notin> set xs) (first_seen ys))
      = filter (\<lambda>y. y \<notin> set (x # xs)) (first_seen ys)"
    by (auto intro: filter_cong)
  with Cons show ?case by simp
qed

lemma extend_Nil [simp]: "extend acc [] = acc" "extend [] ks = first_seen ks"
  by (simp_all add: extend_def)

lemma extend_append: "extend (extend acc xs) ys = extend acc (xs @ ys)"
proof -
  have "filter (\<lambda>k. k \<notin> set acc \<and> k \<notin> set xs) (first_seen ys)
      = filter (\<lambda>k. k \<notin> set acc) (filter (\<lambda>y. y \<notin> set xs) (first_seen ys))"
    by (auto intro: filter_cong)
  then show ?thesis
    by (auto simp: extend_def first_seen_append intro: filter_cong)
qed

lemma extend_Cons:
  "extend acc (k # ks) = extend (if k \<in> set acc then acc else acc @ [k]) ks"
  by (auto simp: extend_def intro!: filter_cong)

lemma distinct_extend: "distinct acc \<Longrightarrow> distinct (extend acc ks)"
  by (auto simp: extend_def)

lemma add_column_Inr:
  assumes "add_column t col = Inr t'"
  shows "rows t' = rows t" "scalar t' = scalar t" "parent t' = parent t"
    "colnames t' = (if name col \<in> set (colnames t) then colnames t else colnames t @ [name col])"
  using assms
  by (auto simp: add_column_def colnames_def split: if_splits option.splits)

lemma add_new_columns_keys_Inr:
  "add_new_columns_keys t ks = Inr t' \<Longrightarrow>
     rows t' = rows t \<and> scalar t' = scalar t \<and> parent t' = parent t \<and>
     colnames t' = extend (colnames t) (filter (\<lambda>k. \<not> startswith k ''__'') ks)"
proof (induction ks arbitrary: t)
  case Nil
  then show ?case by simp
next
  case (Cons k ks)
  show ?case
  proof (cases "startswith k ''__''")
    case True
    with Cons show ?thesis by simp
  next
    case False
    with Cons.prems obtain t1 where
      t1: "add_column t (Column_init k []) = Inr t1" and rest: "add_new_columns_keys t1 ks = Inr t'"
      by (auto split: sum.splits)
    have "name (Column_init k []) = k" by (simp add: Column_init_def)
    with add_column_Inr [OF t1] Cons.IH [OF rest] False show ?thesis
      by (simp add: extend_Cons)
  qed
qed

lemma init_rows_Inr:
  "init_rows t xs = Inr t' \<Longrightarrow>
     rows t' = rows t @ map row_in xs \<and> scalar t' = scalar t \<and> parent t' = parent t \<and>
     colnames t' =
       extend (colnames t) (filter (\<lambda>k. \<not> startswith k ''__'') (concat (map keys_in xs)))"
proof (induction t xs rule: init_rows.induct)
  case (1 t)
  then show ?case by simp
next
  case (2 t lr xs)
  then show ?case by (simp add: colnames_def)
next
  case (3 t r xs)
  from "3.prems" obtain t1 where
    t1: "add_new_columns (Table (rows t @ [r]) (columns t) (scalar t) (parent t)) r = Inr t1"
    and rest: "init_rows t1 xs = Inr t'"
    by (auto split: sum.splits)
  from t1 have "rows t1 = rows t @ [r]" "scalar t1 = scalar t" "parent t1 = parent t"
    "colnames t1 = extend (colnames t) (filter (\<lambda>k. \<not> startswith k ''__'') (map fst r))"
    using add_new_columns_keys_Inr [of "Table (rows t @ [r]) (columns t) (scalar t) (parent t)" "map fst r" t1]
    by (simp_all add: add_new_columns_def colnames_def)
  with "3.IH" [OF t1 rest] show ?case
    by (simp add: extend_append)
qed simp_all

text \<open>
  C2. A table constructed from a sequence of \<open>N\<close> inputs has \<open>N\<close> rows: a mapping
  contributes itself and a \<open>LazyRow\<close> its underlying row. Its column names are the field
  names of the mappings that do not start with \<open>__\<close>, each once, in the order in which
  they are first seen; a \<open>LazyRow\<close> input offers no field name, so it registers no column.
\<close>

theorem Table_init_rows_columns:
  assumes "Table_init (Sequence xs) par = Inr t"
  shows "len t = length xs \<and> rows t = map row_in xs \<and>
         colnames t = first_seen (filter (\<lambda>k. \<not> startswith k ''__'') (concat (map keys_in xs)))"
  using init_rows_Inr [of "Table [] [] VNone par" xs t] assms
  by (simp add: Table_init_def len_def colnames_def)


theorem Table_init_rows_columns_witness:
  "Table_init (Sequence [VDict [(''a'', VInt 1), (''__parent'', VLazy ex_parent_row), (''b'', VInt 2)],
        VLazy ex_child_row, VDict [(''b'', VInt 4), (''c'', VInt 5), (''a'', VInt 3)]]) None
     = Inr (Table [[(''a'', VInt 1), (''__parent'', VLazy ex_parent_row), (''b'', VInt 2)],
            ex_child_dict, [(''b'', VInt 4), (''c'', VInt 5), (''a'', VInt 3)]]
          [Column (KStr ''a'') ''a'', Column (KStr ''b'') ''b'', Column (KStr ''c'') ''c''] VNone None) \<and>
   len (Table [[(''a'', VInt 1), (''__parent'', VLazy ex_parent_row), (''b'', VInt 2)],
            ex_child_dict, [(''b'', VInt 4), (''c'', VInt 5), (''a'', VInt 3)]]
          [Column (KStr ''a'') ''a'', Column (KStr ''b'') ''b'', Column (KStr ''c'') ''c''] VNone None) = 3 \<and>
   colnames (Table [[(''a'', VInt 1), (''__parent'', VLazy ex_parent_row), (''b'', VInt 2)],
            ex_child_dict, [(''b'', VInt 4), (''c'', VInt 5), (''a'', VInt 3)]]
          [Column (KStr ''a'') ''a'', Column (KStr ''b'') ''b'', Column (KStr ''c'') ''c''] VNone None)
     = [''a'', ''b'', ''c'']"
proof -
  have init: "Table_init (Sequence [VDict [(''a'', VInt 1), (''__parent'', VLazy ex_parent_row), (''b'', VInt 2)],
        VLazy ex_child_row, VDict [(''b'', VInt 4), (''c'', VInt 5), (''a'', VInt 3)]]) None
     = Inr (Table [[(''a'', VInt 1), (''__parent'', VLazy ex_parent_row), (''b'', VInt 2)],
            ex_child_dict, [(''b'', VInt 4), (''c'', VInt 5), (''a'', VInt 3)]]
          [Column (KStr ''a'') ''a'', Column (KStr ''b'') ''b'', Column (KStr ''c'') ''c''] VNone None)"
    by (simp add: Table_init_def add_new_columns_def add_column_def Column_init_def colnames_def
        startswith_def ex_child_row_def)
  from Table_init_rows_columns [OF init] init show ?thesis
    by (simp add: startswith_def)
qed

subsection \<open>Uniqueness of column names\<close>

lemma add_column_again:
  assumes "\<not> startswith (name col) ''__''"
    and "rows t = [] \<or> (\<exists>v. get_value col (VDict (hd (rows t))) = Inr v \<and> v \<noteq> UNWORKING)"
    and "name col \<in> set (colnames t)"
  shows "add_column t col = Inr t"
  using assms by (auto simp: add_column_def)

lemma copy_columns_distinct:
  "copy_columns ret cs = Inr ret' \<Longrightarrow> distinct (colnames ret) \<Longrightarrow> distinct (colnames ret')"
proof (induction cs arbitrary: ret)
  case Nil
  then show ?case by simp
next
  case (Cons c cs)
  from Cons.prems(1) obtain r1 where
    r1: "add_column ret c = Inr r1" and rest: "copy_columns r1 cs = Inr ret'"
    by (auto split: sum.splits)
  from add_column_Inr(4) [OF r1] Cons.prems(2) have "distinct (colnames r1)"
    by (simp split: if_splits)
  with Cons.IH [OF rest] show ?case .
qed

text \<open>
  C3. Adding a column whose name is already among the column names returns the table as
  it is (when the two assertions of \<open>add_column\<close> pass; when one fails, an exception is
  raised and nothing is appended). Every operation that adds columns keeps the column
  names pairwise distinct: \<open>add_column\<close>, which lengthens the schema by one exactly when
  the name is new, \<open>add_new_columns\<close>, the constructor and the structural copy.
\<close>

theorem column_names_unique:
  "(\<not> startswith (name col) ''__'' \<and>
    (rows t = [] \<or> (\<exists>v. get_value col (VDict (hd (rows t))) = Inr v \<and> v \<noteq> UNWORKING)) \<and>
    name col \<in> set (colnames t) \<longrightarrow> add_column t col = Inr t) \<and>
   (distinct (colnames t) \<and> add_column t col = Inr t' \<longrightarrow>
      distinct (colnames t') \<and> length (columns t') = (if name col \<in> set (colnames t) then length (columns t) else Suc (length (columns t)))) \<and>
   (distinct (colnames t) \<and> add_new_columns t r = Inr t1 \<longrightarrow> distinct (colnames t1)) \<and>
   (Table_init arg par = Inr t2 \<longrightarrow> distinct (colnames t2)) \<and>
   (Table_copy t = Inr t3 \<longrightarrow> distinct (colnames t3))"
proof (intro conjI impI)
  assume "\<not> startswith (name col) ''__'' \<and>
    (rows t = [] \<or> (\<exists>v. get_value col (VDict (hd (rows t))) = Inr v \<and> v \<noteq> UNWORKING)) \<and>
    name col \<in> set (colnames t)"
  then show "add_column t col = Inr t"
    using add_column_again by blast
next
  assume a: "distinct (colnames t) \<and> add_column t col = Inr t'"
  with add_column_Inr(4) [of t col t'] show "distinct (colnames t')"
    by (simp split: if_splits)
  from a add_column_Inr(4) [of t col t']
  have "length (colnames t') = (if name col \<in> set (colnames t) then length (colnames t) else Suc (length (colnames t)))"
    by (simp split: if_splits)
  then show "length (columns t') = (if name col \<in> set (colnames t) then length (columns t) else Suc (length (columns t)))"
    by (simp add: colnames_def)
next
  assume "distinct (colnames t) \<and> add_new_columns t r = Inr t1"
  then show "distinct (colnames t1)"
    using add_new_columns_keys_Inr [of t "map fst r" t1]
    by (simp add: add_new_columns_def distinct_extend)
next
  assume a: "Table_init arg par = Inr t2"
  show "distinct (colnames t2)"
  proof (cases arg)
    case (Sequence xs)
    with a init_rows_Inr [of "Table [] [] VNone par" xs t2] show ?thesis
      by (simp add: Table_init_def colnames_def)
  next
    case (NotSequence s)
    with a show ?thesis by (auto simp: Table_init_def colnames_def)
  qed
next
  assume "Table_copy t = Inr t3"
  then obtain ret where "copy_columns (Table [] [] VNone None) (columns t) = Inr ret"
    and "t3 = Table [] (columns ret) (scalar t) (parent ret)"
    by (auto simp: Table_copy_def split: sum.splits)
  with copy_columns_distinct [of "Table [] [] VNone None" "columns t" ret]
  show "distinct (colnames t3)"
    by (simp add: colnames_def)
qed

theorem column_names_unique_witness:
  "\<not> startswith (name (Column (KStr ''a'') ''a'')) ''__'' \<and>
   get_value (Column (KStr ''a'') ''a'') (VDict (hd (rows ex_parent_tab))) = Inr (VInt 1) \<and>
   VInt 1 \<noteq> UNWORKING \<and>
   name (Column (KStr ''a'') ''a'') \<in> set (colnames ex_parent_tab) \<and>
   add_column ex_parent_tab (Column (KStr ''a'') ''a'') = Inr ex_parent_tab \<and>
   distinct (colnames ex_parent_tab) \<and>
   length (columns ex_parent_tab) = 1 \<and>
   add_new_columns ex_parent_tab [(''a'', VInt 1), (''c'', VInt 2)]
     = Inr (Table [[(''a'', VInt 1)]] [Column (KStr ''a'') ''a'', Column (KStr ''c'') ''c''] VNone None) \<and>
   distinct (colnames
     (Table [[(''a'', VInt 1)]] [Column (KStr ''a'') ''a'', Column (KStr ''c'') ''c''] VNone None)) \<and>
   Table_init (Sequence [VDict [(''a'', VInt 1)], VDict [(''a'', VInt 3)]]) None
     = Inr (Table [[(''a'', VInt 1)], [(''a'', VInt 3)]] [Column (KStr ''a'') ''a''] VNone None) \<and>
   distinct (colnames
     (Table [[(''a'', VInt 1)], [(''a'', VInt 3)]] [Column (KStr ''a'') ''a''] VNone None)) \<and>
   Table_copy ex_parent_tab = Inr (Table [] [Column (KStr ''a'') ''a''] VNone None) \<and>
   distinct (colnames (Table [] [Column (KStr ''a'') ''a''] VNone None))"
  using column_names_unique [of "Column (KStr ''a'') ''a''" ex_parent_tab ex_parent_tab
      "[(''a'', VInt 1), (''c'', VInt 2)]"
      "Table [[(''a'', VInt 1)]] [Column (KStr ''a'') ''a'', Column (KStr ''c'') ''c''] VNone None"
      "Sequence [VDict [(''a'', VInt 1)], VDict [(''a'', VInt 3)]]" None
      "Table [[(''a'', VInt 1)], [(''a'', VInt 3)]] [Column (KStr ''a'') ''a''] VNone None"
      "Table [] [Column (KStr ''a'') ''a''] VNone None"]
  by (simp add: ex_parent_tab_def colnames_def startswith_def add_column_def add_new_columns_def
      Column_init_def Table_init_def Table_copy_def)

subsection \<open>Flattening a row\<close>

lemma retained_Cons_0:
  "retained nmo (c # cs) 0 \<longleftrightarrow> \<not> (hidden c \<and> (nmo \<or> cs \<noteq> []))"
  by (auto simp: retained_def)

lemma retained_Cons_Suc: "retained nmo (c # cs) (Suc i) \<longleftrightarrow> retained nmo cs i"
  by (auto simp: retained_def)

lemma keys_dict_set: "fst ` set (dict_set d k v) = insert k (fst ` set d)"
  by (auto simp: dict_set_def)

lemma map_of_filter_neq: "k' \<noteq> k \<Longrightarrow> map_of (filter (\<lambda>kv. fst kv \<noteq> k) d) k' = map_of d k'"
  by (induction d) auto

lemma map_of_filter_eq: "map_of (filter (\<lambda>kv. fst kv \<noteq> k) d) k = None"
  by (induction d) auto

lemma map_of_dict_set:
  "map_of (dict_set d k v) k' = (if k' = k then Some v else map_of d k')"
  by (simp add: dict_set_def map_of_append map_add_def map_of_filter_neq map_of_filter_eq
      split: option.splits)

lemma asdict_value_Some_not_None: "asdict_value str v = Inr (Some fv) \<Longrightarrow> v \<noteq> VNone"
  by auto

text \<open>One round of the loop, read off the definition.\<close>

lemma asdict_cols_step:
  assumes "asdict_cols str nmo r (c # cs) d = Inr d'"
  shows "(\<not> retained nmo (c # cs) 0 \<and> asdict_cols str nmo r cs d = Inr d') \<or>
         (retained nmo (c # cs) 0 \<and> get_value c (VDict r) = Inr VNone \<and>
            asdict_cols str nmo r cs d = Inr d') \<or>
         (\<exists>v fv. retained nmo (c # cs) 0 \<and> get_value c (VDict r) = Inr v \<and> v \<noteq> VNone \<and>
            asdict_value str v = Inr (Some fv) \<and>
            asdict_cols str nmo r cs (dict_set d (out_key c) fv) = Inr d')"
proof (cases "retained nmo (c # cs) 0")
  case False
  with assms show ?thesis by (auto simp: retained_Cons_0)
next
  case True
  then have nh: "\<not> (hidden c \<and> (nmo \<or> cs \<noteq> []))" by (simp add: retained_Cons_0)
  from assms nh obtain v where v: "get_value c (VDict r) = Inr v"
    by (auto simp: Let_def split: sum.splits)
  show ?thesis
  proof (cases "v = VNone")
    case True
    with assms nh v \<open>retained nmo (c # cs) 0\<close> show ?thesis
      by (auto simp: Let_def)
  next
    case False
    with assms nh v obtain fv where fv: "asdict_value str v = Inr (Some fv)"
      and rest: "asdict_cols str nmo r cs (dict_set d (out_key c) fv) = Inr d'"
      by (cases v) (auto simp: Let_def out_key_def split: sum.splits option.splits if_splits)
    with v False \<open>retained nmo (c # cs) 0\<close> show ?thesis by blast
  qed
qed

lemma asdict_cols_keys:
  "asdict_cols str nmo r cs d = Inr d' \<Longrightarrow> k \<in> fst ` set d' \<Longrightarrow>
     k \<in> fst ` set d \<or>
     (\<exists>i. retained nmo cs i \<and> out_key (cs ! i) = k \<and> get_value (cs ! i) (VDict r) \<noteq> Inr VNone)"
proof (induction cs arbitrary: d)
  case Nil
  then show ?case by simp
next
  case (Cons c cs)
  from asdict_cols_step [OF Cons.prems(1)]
  consider (skip) "asdict_cols str nmo r cs d = Inr d'"
    | (store) v fv where "retained nmo (c # cs) 0" "get_value c (VDict r) = Inr v" "v \<noteq> VNone"
        "asdict_cols str nmo r cs (dict_set d (out_key c) fv) = Inr d'"
    by blast
  then show ?case
  proof cases
    case skip
    from Cons.IH [OF skip Cons.prems(2)] show ?thesis
      by (metis nth_Cons_Suc retained_Cons_Suc)
  next
    case store
    from Cons.IH [OF store(4) Cons.prems(2)]
    consider "k \<in> fst ` set d" | "k = out_key c"
      | "\<exists>i. retained nmo cs i \<and> out_key (cs ! i) = k \<and> get_value (cs ! i) (VDict r) \<noteq> Inr VNone"
      by (auto simp: keys_dict_set)
    then show ?thesis
    proof cases
      case 1
      then show ?thesis by simp
    next
      case 2
      with store have "retained nmo (c # cs) 0 \<and> out_key ((c # cs) ! 0) = k \<and>
          get_value ((c # cs) ! 0) (VDict r) \<noteq> Inr VNone"
        by simp
      then show ?thesis by blast
    next
      case 3
      then show ?thesis by (metis nth_Cons_Suc retained_Cons_Suc)
    qed
  qed
qed

lemma asdict_cols_preserve:
  "asdict_cols str nmo r cs d = Inr d' \<Longrightarrow> map_of d k = Some fv \<Longrightarrow>
     (\<And>j. retained nmo cs j \<Longrightarrow> out_key (cs ! j) \<noteq> k) \<Longrightarrow> map_of d' k = Some fv"
proof (induction cs arbitrary: d)
  case Nil
  then show ?case by simp
next
  case (Cons c cs)
  have later: "\<And>j. retained nmo cs j \<Longrightarrow> out_key (cs ! j) \<noteq> k"
    using Cons.prems(3) [of "Suc j" for j] by (simp add: retained_Cons_Suc)
  from asdict_cols_step [OF Cons.prems(1)]
  consider (skip) "asdict_cols str nmo r cs d = Inr d'"
    | (store) fv' where "retained nmo (c # cs) 0"
        "asdict_cols str nmo r cs (dict_set d (out_key c) fv') = Inr d'"
    by blast
  then show ?case
  proof cases
    case skip
    from Cons.IH [OF skip Cons.prems(2) later] show ?thesis .
  next
    case store
    from Cons.prems(3) [OF store(1)] have "out_key c \<noteq> k" by simp
    with Cons.prems(2) have "map_of (dict_set d (out_key c) fv') k = Some fv"
      by (simp add: map_of_dict_set)
    from Cons.IH [OF store(2) this later] show ?thesis .
  qed
qed

lemma asdict_cols_stored:
  "asdict_cols str nmo r cs d = Inr d' \<Longrightarrow> retained nmo cs i \<Longrightarrow>
     get_value (cs ! i) (VDict r) = Inr v \<Longrightarrow> asdict_value str v = Inr (Some fv) \<Longrightarrow>
     (\<And>j. i < j \<Longrightarrow> retained nmo cs j \<Longrightarrow> out_key (cs ! j) \<noteq> out_key (cs ! i)) \<Longrightarrow>
     map_of d' (out_key (cs ! i)) = Some fv"
proof (induction cs arbitrary: d i)
  case Nil
  then show ?case by (simp add: retained_def)
next
  case (Cons c cs)
  show ?case
  proof (cases i)
    case 0
    from Cons.prems(3,4) 0 have v: "get_value c (VDict r) = Inr v" "v \<noteq> VNone"
      by auto
    from asdict_cols_step [OF Cons.prems(1)] Cons.prems(2,4) v 0
    have rest: "asdict_cols str nmo r cs (dict_set d (out_key c) fv) = Inr d'"
      by auto
    have "\<And>j. retained nmo cs j \<Longrightarrow> out_key (cs ! j) \<noteq> out_key c"
      using Cons.prems(5) [of "Suc j" for j] 0 by (simp add: retained_Cons_Suc)
    then have "map_of d' (out_key c) = Some fv"
      by (intro asdict_cols_preserve [OF rest]) (simp_all add: map_of_dict_set)
    with 0 show ?thesis by simp
  next
    case (Suc i')
    from asdict_cols_step [OF Cons.prems(1)]
    obtain d1 where rest: "asdict_cols str nmo r cs d1 = Inr d'"
      by blast
    have later: "\<And>j. i' < j \<Longrightarrow> retained nmo cs j \<Longrightarrow> out_key (cs ! j) \<noteq> out_key (cs ! i')"
      using Cons.prems(5) [of "Suc j" for j] Suc by (simp add: retained_Cons_Suc)
    have "map_of d' (out_key (cs ! i')) = Some fv"
    proof (rule Cons.IH [OF rest])
      show "retained nmo cs i'"
        using Cons.prems(2) Suc by (simp add: retained_Cons_Suc)
      show "get_value (cs ! i') (VDict r) = Inr v"
        using Cons.prems(3) Suc by simp
      show "asdict_value str v = Inr (Some fv)" by fact
      show "\<And>j. i' < j \<Longrightarrow> retained nmo cs j \<Longrightarrow> out_key (cs ! j) \<noteq> out_key (cs ! i')"
        by (rule later)
    qed
    with Suc show ?thesis by simp
  qed
qed

lemma hidden_CURRENT: "name c = CURRENT_COLNAME \<Longrightarrow> hidden c"
  by (simp add: hidden_def CURRENT_COLNAME_def startswith_def)

lemma out_key_inj:
  assumes "distinct (map name cs)" "retained nmo cs i" "retained nmo cs j"
    and "out_key (cs ! i) = out_key (cs ! j)"
  shows "i = j"
proof (cases "hidden (cs ! i)")
  case hi: True
  with assms(2) have li: "Suc i = length cs" by (auto simp: retained_def)
  show ?thesis
  proof (cases "hidden (cs ! j)")
    case True
    with assms(3) li show ?thesis by (auto simp: retained_def)
  next
    case False
    with hi assms(4) have "name (cs ! j) = CURRENT_COLNAME" by (simp add: out_key_def)
    with False show ?thesis by (simp add: hidden_CURRENT)
  qed
next
  case nhi: False
  show ?thesis
  proof (cases "hidden (cs ! j)")
    case True
    with nhi assms(4) have "name (cs ! i) = CURRENT_COLNAME" by (simp add: out_key_def)
    with nhi show ?thesis by (simp add: hidden_CURRENT)
  next
    case False
    with nhi assms(4) have "map name cs ! i = map name cs ! j"
      using assms(2,3) by (simp add: out_key_def retained_def)
    moreover have "i < length (map name cs)" "j < length (map name cs)"
      using assms(2,3) by (simp_all add: retained_def)
    ultimately show ?thesis
      using assms(1) nth_eq_iff_index_eq [of "map name cs" i j] by blast
  qed
qed

lemma asdict_absent_omitted:
  assumes "distinct (colnames t)" "retained nmo (columns t) i"
    and "get_value (columns t ! i) (VDict r) = Inr VNone"
    and "LazyRow_asdict str nmo (LazyRow t r) = Inr d"
  shows "out_key (columns t ! i) \<notin> fst ` set d"
proof
  assume "out_key (columns t ! i) \<in> fst ` set d"
  with assms(4) asdict_cols_keys [of str nmo r "columns t" "[]" d "out_key (columns t ! i)"]
  obtain j where j: "retained nmo (columns t) j" "out_key (columns t ! j) = out_key (columns t ! i)"
    "get_value (columns t ! j) (VDict r) \<noteq> Inr VNone"
    by auto
  from out_key_inj [OF _ j(1) assms(2) j(2)] assms(1) have "j = i"
    by (simp add: colnames_def)
  with j(3) assms(3) show False by simp
qed

lemma asdict_present_stored:
  assumes "distinct (colnames t)" "retained nmo (columns t) i"
    and "get_value (columns t ! i) (VDict r) = Inr v" "asdict_value str v = Inr (Some fv)"
    and "LazyRow_asdict str nmo (LazyRow t r) = Inr d"
  shows "map_of d (out_key (columns t ! i)) = Some fv"
proof -
  have "\<And>j. i < j \<Longrightarrow> retained nmo (columns t) j \<Longrightarrow>
      out_key (columns t ! j) \<noteq> out_key (columns t ! i)"
    using out_key_inj [of "columns t" nmo _ i] assms(1,2) by (auto simp: colnames_def)
  from asdict_cols_stored [OF _ assms(2,3,4) this, of "[]" d] assms(5) show ?thesis
    by simp
qed









text \<open>
  C8. In the flattening of a row of a table with pairwise distinct column names, for
  every retained column: when its value is absent (\<open>None\<close>), its key is no key of the
  output; when its value is a primitive scalar, zero and the empty string included, the
  output maps its key to that value.
\<close>

theorem asdict_absent_vs_falsy:
  assumes "distinct (colnames t)" and "retained nmo (columns t) i"
    and "LazyRow_asdict str nmo (LazyRow t r) = Inr d"
  shows "(get_value (columns t ! i) (VDict r) = Inr VNone \<longrightarrow>
            out_key (columns t ! i) \<notin> fst ` set d) \<and>
         (get_value (columns t ! i) (VDict r) = Inr v \<and> (v = VInt n \<or> v = VFloat x \<or> v = VStr s) \<longrightarrow>
            map_of d (out_key (columns t ! i)) = Some (FVal v))"
proof (intro conjI impI)
  assume "get_value (columns t ! i) (VDict r) = Inr VNone"
  then show "out_key (columns t ! i) \<notin> fst ` set d"
    using asdict_absent_omitted assms by blast
next
  assume a: "get_value (columns t ! i) (VDict r) = Inr v \<and> (v = VInt n \<or> v = VFloat x \<or> v = VStr s)"
  then have "asdict_value str v = Inr (Some (FVal v))" by auto
  with a show "map_of d (out_key (columns t ! i)) = Some (FVal v)"
    using asdict_present_stored assms by blast
qed





theorem asdict_absent_vs_falsy_witness:
  "distinct (colnames ex_flat_tab) \<and>
   retained False (columns ex_flat_tab) 0 \<and>
   retained False (columns ex_flat_tab) 1 \<and>
   retained False (columns ex_flat_tab) 2 \<and>
   LazyRow_asdict (\<lambda>v. []) False (LazyRow ex_flat_tab ex_flat_dict)
     = Inr [(''n'', FVal (VInt 0)), (''s'', FVal (VStr [])), (''_'', FVal (VInt 7))] \<and>
   get_value (columns ex_flat_tab ! 2) (VDict ex_flat_dict) = Inr VNone \<and>
   out_key (columns ex_flat_tab ! 2)
     \<notin> fst ` set [(''n'', FVal (VInt 0)), (''s'', FVal (VStr [])), (''_'', FVal (VInt 7))] \<and>
   get_value (columns ex_flat_tab ! 0) (VDict ex_flat_dict) = Inr (VInt 0) \<and>
   map_of [(''n'', FVal (VInt 0)), (''s'', FVal (VStr [])), (''_'', FVal (VInt 7))]
       (out_key (columns ex_flat_tab ! 0)) = Some (FVal (VInt 0)) \<and>
   get_value (columns ex_flat_tab ! 1) (VDict ex_flat_dict) = Inr (VStr []) \<and>
   map_of [(''n'', FVal (VInt 0)), (''s'', FVal (VStr [])), (''_'', FVal (VInt 7))]
       (out_key (columns ex_flat_tab ! 1)) = Some (FVal (VStr []))"
proof -
  have dist: "distinct (colnames ex_flat_tab)"
    by (simp add: colnames_def ex_flat_tab_def ex_flat_cols_def)
  have ret: "retained False (columns ex_flat_tab) 0" "retained False (columns ex_flat_tab) 1"
    "retained False (columns ex_flat_tab) 2"
    by (simp_all add: retained_def ex_flat_tab_def ex_flat_cols_def hidden_def startswith_def)
  have F: "LazyRow_asdict (\<lambda>v. []) False (LazyRow ex_flat_tab ex_flat_dict)
     = Inr [(''n'', FVal (VInt 0)), (''s'', FVal (VStr [])), (''_'', FVal (VInt 7))]"
    by code_simp
  have vals: "get_value (columns ex_flat_tab ! 2) (VDict ex_flat_dict) = Inr VNone"
    "get_value (columns ex_flat_tab ! 0) (VDict ex_flat_dict) = Inr (VInt 0)"
    "get_value (columns ex_flat_tab ! 1) (VDict ex_flat_dict) = Inr (VStr [])"
    by (simp_all add: ex_flat_tab_def ex_flat_cols_def ex_flat_dict_def)
  from asdict_absent_vs_falsy [OF dist ret(3) F] vals(1)
  have 1: "out_key (columns ex_flat_tab ! 2)
     \<notin> fst ` set [(''n'', FVal (VInt 0)), (''s'', FVal (VStr [])), (''_'', FVal (VInt 7))]"
    by blast
  from asdict_absent_vs_falsy [OF dist ret(1) F, of "VInt 0" 0] vals(2)
  have 2: "map_of [(''n'', FVal (VInt 0)), (''s'', FVal (VStr [])), (''_'', FVal (VInt 7))]
       (out_key (columns ex_flat_tab ! 0)) = Some (FVal (VInt 0))"
    by blast
  from asdict_absent_vs_falsy [OF dist ret(2) F, where v = "VStr []" and s = "[]"] vals(3)
  have 3: "map_of [(''n'', FVal (VInt 0)), (''s'', FVal (VStr [])), (''_'', FVal (VInt 7))]
       (out_key (columns ex_flat_tab ! 1)) = Some (FVal (VStr []))"
    by blast
  from dist ret F vals 1 2 3 show ?thesis by blast
qed

subsection \<open>A field stored as \<open>None\<close>\<close>

lemma walk_reach:
  "walk ks1 obj = Inr (VDict m) \<Longrightarrow> walk (ks1 @ ks2) obj = walk ks2 (VDict m)"
proof (induction ks1 arbitrary: obj)
  case Nil
  then show ?case by simp
next
  case (Cons k ks1)
  from Cons.prems obtain v where v: "obj_get obj k = Inr v" "v \<noteq> VNone" "walk ks1 v = Inr (VDict m)"
    by (auto split: sum.splits if_splits)
  from Cons.IH [OF v(3)] v(1,2) show ?case by simp
qed

lemma obj_get_None: "map_of m k = None \<or> map_of m k = Some VNone \<Longrightarrow> obj_get (VDict m) k = Inr VNone"
  by (auto simp: obj_get.simps)

text \<open>
  C10, as stated, at a \<open>SubColumn\<close> and at lookup by name. A \<open>SubColumn\<close> raises \<open>KeyError\<close>
  on a row without its key and \<open>AttributeError\<close> on a row that stores \<open>None\<close> there. A
  field stored as \<open>None\<close> is registered as a column by the constructor, so the lookup of
  its name returns \<open>None\<close>, whereas the lookup of a field that is missing raises
  \<open>KeyError\<close>.
\<close>

theorem none_vs_missing_counterexample:
  "map_of [] ''inner'' = (None :: val option) \<and>
   get_value (SubColumn (KStr ''inner'') ''x'' (Column (KStr ''x'') ''x'')) (VDict [])
     = Inl (KeyError (KStr ''inner'')) \<and>
   map_of [(''inner'', VNone)] ''inner'' = Some VNone \<and>
   get_value (SubColumn (KStr ''inner'') ''x'' (Column (KStr ''x'') ''x'')) (VDict [(''inner'', VNone)])
     = Inl AttributeError \<and>
   Table_init (Sequence [VDict [(''a'', VNone)]]) None
     = Inr (Table [[(''a'', VNone)]] [Column (KStr ''a'') ''a''] VNone None) \<and>
   Table_getitem (Table [[(''a'', VNone)]] [Column (KStr ''a'') ''a''] VNone None) 0
     = Inr (LazyRow (Table [[(''a'', VNone)]] [Column (KStr ''a'') ''a''] VNone None) [(''a'', VNone)]) \<and>
   getitem (LazyRow (Table [[(''a'', VNone)]] [Column (KStr ''a'') ''a''] VNone None) [(''a'', VNone)])
       (KStr ''a'') = Inr VNone \<and>
   Table_init (Sequence [VDict []]) None = Inr (Table [[]] [] VNone None) \<and>
   Table_getitem (Table [[]] [] VNone None) 0 = Inr (LazyRow (Table [[]] [] VNone None) []) \<and>
   getitem (LazyRow (Table [[]] [] VNone None) []) (KStr ''a'') = Inl (KeyError (KStr ''a''))"
  by (simp add: obj_item.simps obj_get.simps Table_init_def add_new_columns_def add_column_def
      Column_init_def colnames_def startswith_def Table_getitem_def get_column_def
      CURRENT_COLNAME_def parent_row_def)

text \<open>
  C10, amended. Let the field \<open>k\<close> be missing from a mapping or stored there as \<open>None\<close>,
  the mapping being the row itself or the nested mapping that a prefix of a path reaches.
  Then a \<open>Column\<close> that is no \<open>SubColumn\<close> and whose key is \<open>k\<close>, or a path that continues
  with \<open>k\<close>, has the value \<open>None\<close> in both cases, and the flattening of the row (of a table
  with pairwise distinct column names) has no key for that column.
\<close>

theorem none_is_absent:
  assumes "map_of m k = None \<or> map_of m k = Some VNone"
    and "walk pre (VDict r) = Inr (VDict m)"
    and "ck = KStr k \<and> pre = [] \<or> ck = KList (pre @ k # post) \<or> ck = KTuple (pre @ k # post)"
  shows "get_value (Column ck nm) (VDict r) = Inr VNone \<and>
         (distinct (colnames t) \<and> retained nmo (columns t) i \<and> columns t ! i = Column ck nm \<and>
          LazyRow_asdict str nmo (LazyRow t r) = Inr d \<longrightarrow>
            out_key (Column ck nm) \<notin> fst ` set d)"
proof -
  have step: "obj_get (VDict m) k = Inr VNone"
    using assms(1) by (rule obj_get_None)
  have path: "walk (pre @ k # post) (VDict r) = Inr VNone"
    using walk_reach [OF assms(2), of "k # post"] step by simp
  have val: "get_value (Column ck nm) (VDict r) = Inr VNone"
    using assms(3)
  proof (elim disjE conjE)
    assume "ck = KStr k" "pre = []"
    with assms(2) step show ?thesis by simp
  next
    assume "ck = KList (pre @ k # post)"
    with path show ?thesis by simp
  next
    assume "ck = KTuple (pre @ k # post)"
    with path show ?thesis by simp
  qed
  have "out_key (Column ck nm) \<notin> fst ` set d"
    if "distinct (colnames t) \<and> retained nmo (columns t) i \<and> columns t ! i = Column ck nm \<and>
          LazyRow_asdict str nmo (LazyRow t r) = Inr d"
    using asdict_absent_omitted [of t nmo i r str d] that val by simp
  with val show ?thesis by blast
qed


theorem none_is_absent_witness:
  "map_of ex_flat_dict ''gone'' = Some VNone \<and>
   map_of ex_flat_dict ''miss'' = None \<and>
   walk [] (VDict ex_flat_dict) = Inr (VDict ex_flat_dict) \<and>
   get_value (Column (KStr ''gone'') ''gone'') (VDict ex_flat_dict) = Inr VNone \<and>
   get_value (Column (KStr ''miss'') ''miss'') (VDict ex_flat_dict) = Inr VNone \<and>
   walk [''p''] (VDict ex_flat_dict) = Inr (VDict [(''q'', VNone)]) \<and>
   map_of [(''q'', VNone)] ''q'' = Some VNone \<and>
   map_of [(''q'', VNone)] ''w'' = None \<and>
   get_value (Column (KList ([''p''] @ ''q'' # [''z''])) ''deep'') (VDict ex_flat_dict) = Inr VNone \<and>
   get_value (Column (KTuple ([''p''] @ ''w'' # [''z''])) ''far'') (VDict ex_flat_dict) = Inr VNone \<and>
   distinct (colnames ex_flat_tab) \<and>
   retained False (columns ex_flat_tab) 2 \<and> columns ex_flat_tab ! 2 = Column (KStr ''gone'') ''gone'' \<and>
   retained False (columns ex_flat_tab) 3 \<and> columns ex_flat_tab ! 3 = Column (KStr ''miss'') ''miss'' \<and>
   retained False (columns ex_flat_tab) 4 \<and>
   columns ex_flat_tab ! 4 = Column (KList ([''p''] @ ''q'' # [''z''])) ''deep'' \<and>
   retained False (columns ex_flat_tab) 5 \<and>
   columns ex_flat_tab ! 5 = Column (KTuple ([''p''] @ ''w'' # [''z''])) ''far'' \<and>
   LazyRow_asdict (\<lambda>v. []) False (LazyRow ex_flat_tab ex_flat_dict)
     = Inr [(''n'', FVal (VInt 0)), (''s'', FVal (VStr [])), (''_'', FVal (VInt 7))] \<and>
   out_key (Column (KStr ''gone'') ''gone'')
     \<notin> fst ` set [(''n'', FVal (VInt 0)), (''s'', FVal (VStr [])), (''_'', FVal (VInt 7))] \<and>
   out_key (Column (KStr ''miss'') ''miss'')
     \<notin> fst ` set [(''n'', FVal (VInt 0)), (''s'', FVal (VStr [])), (''_'', FVal (VInt 7))] \<and>
   out_key (Column (KList ([''p''] @ ''q'' # [''z''])) ''deep'')
     \<notin> fst ` set [(''n'', FVal (VInt 0)), (''s'', FVal (VStr [])), (''_'', FVal (VInt 7))] \<and>
   out_key (Column (KTuple ([''p''] @ ''w'' # [''z''])) ''far'')
     \<notin> fst ` set [(''n'', FVal (VInt 0)), (''s'', FVal (VStr [])), (''_'', FVal (VInt 7))]"
proof -
  have look: "map_of ex_flat_dict ''gone'' = Some VNone" "map_of ex_flat_dict ''miss'' = None"
    "map_of [(''q'', VNone)] ''q'' = Some VNone" "map_of [(''q'', VNone)] ''w'' = (None :: val option)"
    by (simp_all add: ex_flat_dict_def)
  have reach: "walk [] (VDict ex_flat_dict) = Inr (VDict ex_flat_dict)"
    "walk [''p''] (VDict ex_flat_dict) = Inr (VDict [(''q'', VNone)])"
    by (simp_all add: ex_flat_dict_def obj_get.simps)
  have dist: "distinct (colnames ex_flat_tab)"
    by (simp add: colnames_def ex_flat_tab_def ex_flat_cols_def)
  have ret: "retained False (columns ex_flat_tab) 2" "retained False (columns ex_flat_tab) 3"
    "retained False (columns ex_flat_tab) 4" "retained False (columns ex_flat_tab) 5"
    by (simp_all add: retained_def ex_flat_tab_def ex_flat_cols_def hidden_def startswith_def)
  have col: "columns ex_flat_tab ! 2 = Column (KStr ''gone'') ''gone''"
    "columns ex_flat_tab ! 3 = Column (KStr ''miss'') ''miss''"
    "columns ex_flat_tab ! 4 = Column (KList ([''p''] @ ''q'' # [''z''])) ''deep''"
    "columns ex_flat_tab ! 5 = Column (KTuple ([''p''] @ ''w'' # [''z''])) ''far''"
    by (simp_all add: ex_flat_tab_def ex_flat_cols_def)
  have F: "LazyRow_asdict (\<lambda>v. []) False (LazyRow ex_flat_tab ex_flat_dict)
     = Inr [(''n'', FVal (VInt 0)), (''s'', FVal (VStr [])), (''_'', FVal (VInt 7))]"
    by code_simp
  note a = none_is_absent [where m = ex_flat_dict and k = "''gone''" and pre = "[]"
      and r = ex_flat_dict and ck = "KStr ''gone''" and nm = "''gone''" and t = ex_flat_tab
      and nmo = False and i = 2 and str = "\<lambda>v. []"
      and d = "[(''n'', FVal (VInt 0)), (''s'', FVal (VStr [])), (''_'', FVal (VInt 7))]"]
  note b = none_is_absent [where m = ex_flat_dict and k = "''miss''" and pre = "[]"
      and r = ex_flat_dict and ck = "KStr ''miss''" and nm = "''miss''" and t = ex_flat_tab
      and nmo = False and i = 3 and str = "\<lambda>v. []"
      and d = "[(''n'', FVal (VInt 0)), (''s'', FVal (VStr [])), (''_'', FVal (VInt 7))]"]
  note c = none_is_absent [where m = "[(''q'', VNone)]" and k = "''q''" and pre = "[''p'']"
      and post = "[''z'']" and r = ex_flat_dict and ck = "KList ([''p''] @ ''q'' # [''z''])"
      and nm = "''deep''" and t = ex_flat_tab and nmo = False and i = 4 and str = "\<lambda>v. []"
      and d = "[(''n'', FVal (VInt 0)), (''s'', FVal (VStr [])), (''_'', FVal (VInt 7))]"]
  note d = none_is_absent [where m = "[(''q'', VNone)]" and k = "''w''" and pre = "[''p'']"
      and post = "[''z'']" and r = ex_flat_dict and ck = "KTuple ([''p''] @ ''w'' # [''z''])"
      and nm = "''far''" and t = ex_flat_tab and nmo = False and i = 5 and str = "\<lambda>v. []"
      and d = "[(''n'', FVal (VInt 0)), (''s'', FVal (VStr [])), (''_'', FVal (VInt 7))]"]
  from a look(1) reach(1) dist ret(1) col(1) F
  have 1: "get_value (Column (KStr ''gone'') ''gone'') (VDict ex_flat_dict) = Inr VNone \<and>
     out_key (Column (KStr ''gone'') ''gone'')
       \<notin> fst ` set [(''n'', FVal (VInt 0)), (''s'', FVal (VStr [])), (''_'', FVal (VInt 7))]"
    by blast
  from b look(2) reach(1) dist ret(2) col(2) F
  have 2: "get_value (Column (KStr ''miss'') ''miss'') (VDict ex_flat_dict) = Inr VNone \<and>
     out_key (Column (KStr ''miss'') ''miss'')
       \<notin> fst ` set [(''n'', FVal (VInt 0)), (''s'', FVal (VStr [])), (''_'', FVal (VInt 7))]"
    by blast
  from c look(3) reach(2) dist ret(3) col(3) F
  have 3: "get_value (Column (KList ([''p''] @ ''q'' # [''z''])) ''deep'') (VDict ex_flat_dict) = Inr VNone \<and>
     out_key (Column (KList ([''p''] @ ''q'' # [''z''])) ''deep'')
       \<notin> fst ` set [(''n'', FVal (VInt 0)), (''s'', FVal (VStr [])), (''_'', FVal (VInt 7))]"
    by blast
  from d look(4) reach(2) dist ret(4) col(4) F
  have 4: "get_value (Column (KTuple ([''p''] @ ''w'' # [''z''])) ''far'') (VDict ex_flat_dict) = Inr VNone \<and>
     out_key (Column (KTuple ([''p''] @ ''w'' # [''z''])) ''far'')
       \<notin> fst ` set [(''n'', FVal (VInt 0)), (''s'', FVal (VStr [])), (''_'', FVal (VInt 7))]"
    by blast
  from look reach dist ret col F 1 2 3 4 show ?thesis by blast
qed

end
